theory Spec2Isabelle
  imports Main "HOL-Library.AList" "HOL-Library.Multiset"
begin

section \<open>Employee project pairs: the computation of \<open>src/App.tsx\<close>\<close>

text \<open>
  The application reads rows of string tokens (employee id, project id, start date, end
  date), validates them, adds up for every pair of employees the days they worked together
  on a project, and shows the per-project rows of the pair(s) with the largest total.

  The embedding follows \<open>src/src/App.tsx\<close> function by function. The second source
  file, \<open>src/unnamed/part_000\<close>, is an earlier version of the same component: its lines
  up to \<open>differenceInDays\<close> are the same text (one comment apart), and its
  \<open>processData\<close> is embedded separately further down.
\<close>

subsection \<open>The host: what the JavaScript runtime supplies\<close>

text \<open>
  Four things come from the runtime and not from the repository. They are fields of a
  \<open>host\<close> record, so that every statement below holds for every runtime:
  \<^item> \<open>Date_now\<close>: the time value that \<^verbatim>\<open>new Date()\<close> reads from the clock
    (milliseconds since the epoch), taken as constant during one run of \<open>processData\<close>;
  \<^item> \<open>UTC\<close>: the conversion of a local time value to UTC (ECMA-262 \<open>UTC(t)\<close>), which
    depends on the time zone and its daylight-saving rules;
  \<^item> \<open>Number\<close>: \<^verbatim>\<open>Number(s)\<close> on an arbitrary token, with \<open>None\<close> for \<open>NaN\<close>. The type
    \<open>'n\<close> stands for the values of a JavaScript number other than \<open>NaN\<close>, with their
    order and with the two zeros as one value, as \<^verbatim>\<open>===\<close> has them; the code only
    compares ids, takes their minimum and maximum and prints them;
  \<^item> \<open>Date_parse\<close>: the time value of \<^verbatim>\<open>new Date(s)\<close> for a string \<open>s\<close>, with \<open>None\<close>
    for an invalid date (\<open>NaN\<close>). ECMA-262 leaves it to the implementation for every
    string that is not in the ISO format.

  Time values are integral and at most \<open>8.64e15\<close> in magnitude, so they are modelled as
  \<open>int\<close>; so are the counts of days. The arithmetic of the code on them is exact as long
  as the results stay below \<open>2^53\<close>, which the difference of two time values does when
  the dates are less than 285000 years apart. Strings are lists of 8-bit characters; the
  tokens are read as ASCII, so \<open>toLowerCase\<close> and \<open>trim\<close> treat the letters and the white
  space of ASCII only.
\<close>

record 'n host =
  Date_now :: int
  UTC :: "int \<Rightarrow> int"
  Number :: "string \<Rightarrow> 'n option"
  Date_parse :: "string \<Rightarrow> int option"

subsection \<open>Strings: \<open>toLowerCase\<close>, \<open>trim\<close>, \<open>split\<close>, \<open>RegExp.test\<close>\<close>

definition isUpper :: "char \<Rightarrow> bool" where
  "isUpper c = (65 \<le> (of_char c :: nat) \<and> (of_char c :: nat) \<le> 90)"

definition toLowerChar :: "char \<Rightarrow> char" where
  "toLowerChar c = (if isUpper c then char_of ((of_char c :: nat) + 32) else c)"

definition toLowerCase :: "string \<Rightarrow> string" where
  "toLowerCase s = map toLowerChar s"

text \<open>White space and line terminators of ASCII: TAB, LF, VT, FF, CR and the space.\<close>

definition isWhiteSpace :: "char \<Rightarrow> bool" where
  "isWhiteSpace c = ((of_char c :: nat) \<in> {9, 10, 11, 12, 13, 32})"

definition trim :: "string \<Rightarrow> string" where
  "trim s = rev (dropWhile isWhiteSpace (rev (dropWhile isWhiteSpace s)))"

text \<open>\<^verbatim>\<open>s.split(sep)\<close> for a separator of one character: the pieces between the separators.\<close>

fun split :: "char \<Rightarrow> string \<Rightarrow> string list" where
  "split sep [] = [[]]"
| "split sep (c # cs) =
     (if c = sep then [] # split sep cs
      else (case split sep cs of
              [] \<Rightarrow> [[c]]
            | p # ps \<Rightarrow> (c # p) # ps))"

definition isDigit :: "char \<Rightarrow> bool" where
  "isDigit c = (48 \<le> (of_char c :: nat) \<and> (of_char c :: nat) \<le> 57)"

text \<open>
  The regular expressions of \<open>datePatterns\<close> are anchored at both ends and made of
  \<^verbatim>\<open>\d\<close> and literal characters only: a list of atoms, matched one character each.
\<close>

datatype atom = Digit | Lit char

fun atom_matches :: "atom \<Rightarrow> char \<Rightarrow> bool" where
  "atom_matches Digit c = isDigit c"
| "atom_matches (Lit l) c = (c = l)"

fun regex_test :: "atom list \<Rightarrow> string \<Rightarrow> bool" where
  "regex_test [] [] = True"
| "regex_test (a # as) (c # cs) = (atom_matches a c \<and> regex_test as cs)"
| "regex_test _ _ = False"

text \<open>
  \<^verbatim>\<open>Number(s)\<close> on a string of decimal digits is the number they write. The parsers of
  \<open>datePatterns\<close> apply \<open>Number\<close> only to such strings (the pieces of a token that its
  regular expression has matched); a piece that is missing makes the date invalid.
\<close>

definition digitValue :: "char \<Rightarrow> int" where
  "digitValue c = (of_char c :: int) - 48"

definition NumberOfDigits :: "string \<Rightarrow> int" where
  "NumberOfDigits s = foldl (\<lambda>acc c. 10 * acc + digitValue c) 0 s"

subsection \<open>Dates: \<^verbatim>\<open>new Date(year, month, day)\<close> after ECMA-262\<close>

definition msPerDay :: int where
  "msPerDay = 1000 * 60 * 60 * 24"

definition DayFromYear :: "int \<Rightarrow> int" where
  "DayFromYear y =
     365 * (y - 1970) + (y - 1969) div 4 - (y - 1901) div 100 + (y - 1601) div 400"

definition InLeapYear :: "int \<Rightarrow> bool" where
  "InLeapYear y = (y mod 4 = 0 \<and> (y mod 100 \<noteq> 0 \<or> y mod 400 = 0))"

text \<open>Days of the year before the first of month \<open>mn\<close> (0 is January).\<close>

definition DaysBeforeMonth :: "int \<Rightarrow> bool \<Rightarrow> int" where
  "DaysBeforeMonth mn leap =
     (if mn = 0 then 0
      else if mn = 1 then 31
      else (if leap then 1 else 0) +
        (if mn = 2 then 59 else if mn = 3 then 90 else if mn = 4 then 120
         else if mn = 5 then 151 else if mn = 6 then 181 else if mn = 7 then 212
         else if mn = 8 then 243 else if mn = 9 then 273 else if mn = 10 then 304
         else 334))"

text \<open>
  \<open>MakeDay\<close> carries a month outside 0..11 into the year, and counts the day of the month
  from the first of that month without looking at the month's length: day 0 is the last
  day of the month before, day 32 lies in the month after.
\<close>

definition MakeDay :: "int \<Rightarrow> int \<Rightarrow> int \<Rightarrow> int" where
  "MakeDay year month date =
     (let ym = year + month div 12;
          mn = month mod 12
      in DayFromYear ym + DaysBeforeMonth mn (InLeapYear ym) + date - 1)"

definition TimeClip :: "int \<Rightarrow> int option" where
  "TimeClip t = (if \<bar>t\<bar> > 8640000000000000 then None else Some t)"

text \<open>
  The constructor on three numbers. A year from 0 to 99 is taken as 1900 plus the year.
  The result is the time value of the date, \<open>None\<close> when the date is invalid.
\<close>

definition newDate :: "'n host \<Rightarrow> int \<Rightarrow> int \<Rightarrow> int \<Rightarrow> int option" where
  "newDate h year month date =
     (let yr = (if 0 \<le> year \<and> year \<le> 99 then 1900 + year else year)
      in TimeClip (UTC h (MakeDay yr month date * msPerDay)))"

subsection \<open>\<open>datePatterns\<close> and \<open>parseDate\<close>\<close>

definition regex_ymd_dash :: "atom list" where
  "regex_ymd_dash =
     [Digit, Digit, Digit, Digit, Lit CHR ''-'', Digit, Digit, Lit CHR ''-'', Digit, Digit]"

definition regex_mdy_slash :: "atom list" where
  "regex_mdy_slash =
     [Digit, Digit, Lit CHR ''/'', Digit, Digit, Lit CHR ''/'', Digit, Digit, Digit, Digit]"

definition regex_dmy_dash :: "atom list" where
  "regex_dmy_dash =
     [Digit, Digit, Lit CHR ''-'', Digit, Digit, Lit CHR ''-'', Digit, Digit, Digit, Digit]"

definition regex_dmy_slash :: "atom list" where
  "regex_dmy_slash =
     [Digit, Digit, Lit CHR ''/'', Digit, Digit, Lit CHR ''/'', Digit, Digit, Digit, Digit]"

text \<open>The four parsers, in the order of the source: yyyy-MM-dd, MM/dd/yyyy, dd-MM-yyyy, dd/MM/yyyy.\<close>

definition parser_ymd_dash :: "'n host \<Rightarrow> string \<Rightarrow> int option" where
  "parser_ymd_dash h dateStr =
     (case split CHR ''-'' dateStr of
        p0 # p1 # p2 # _ \<Rightarrow>
          newDate h (NumberOfDigits p0) (NumberOfDigits p1 - 1) (NumberOfDigits p2)
      | _ \<Rightarrow> None)"

definition parser_mdy_slash :: "'n host \<Rightarrow> string \<Rightarrow> int option" where
  "parser_mdy_slash h dateStr =
     (case split CHR ''/'' dateStr of
        p0 # p1 # p2 # _ \<Rightarrow>
          newDate h (NumberOfDigits p2) (NumberOfDigits p0 - 1) (NumberOfDigits p1)
      | _ \<Rightarrow> None)"

definition parser_dmy_dash :: "'n host \<Rightarrow> string \<Rightarrow> int option" where
  "parser_dmy_dash h dateStr =
     (case split CHR ''-'' dateStr of
        p0 # p1 # p2 # _ \<Rightarrow>
          newDate h (NumberOfDigits p2) (NumberOfDigits p1 - 1) (NumberOfDigits p0)
      | _ \<Rightarrow> None)"

definition parser_dmy_slash :: "'n host \<Rightarrow> string \<Rightarrow> int option" where
  "parser_dmy_slash h dateStr =
     (case split CHR ''/'' dateStr of
        p0 # p1 # p2 # _ \<Rightarrow>
          newDate h (NumberOfDigits p2) (NumberOfDigits p1 - 1) (NumberOfDigits p0)
      | _ \<Rightarrow> None)"

type_synonym 'n datePattern = "atom list \<times> ('n host \<Rightarrow> string \<Rightarrow> int option)"

definition datePatterns :: "'n datePattern list" where
  "datePatterns =
     [(regex_ymd_dash, parser_ymd_dash),
      (regex_mdy_slash, parser_mdy_slash),
      (regex_dmy_dash, parser_dmy_dash),
      (regex_dmy_slash, parser_dmy_slash)]"

text \<open>
  The loop of \<open>parseDate\<close> over the patterns: the first pattern whose regular expression
  matches and whose parser gives a valid date decides; with none, the fallback
  \<^verbatim>\<open>new Date(dateStr)\<close> does. The result is the time value of the date returned, \<open>None\<close>
  for \<open>null\<close>.
\<close>

fun tryPatterns :: "'n datePattern list \<Rightarrow> 'n host \<Rightarrow> string \<Rightarrow> int option" where
  "tryPatterns [] h dateStr = Date_parse h dateStr"
| "tryPatterns ((regex, parser) # rest) h dateStr =
     (if regex_test regex dateStr then
        (case parser h dateStr of
           Some d \<Rightarrow> Some d
         | None \<Rightarrow> tryPatterns rest h dateStr)
      else tryPatterns rest h dateStr)"

definition parseDateWith :: "'n datePattern list \<Rightarrow> 'n host \<Rightarrow> string \<Rightarrow> int option" where
  "parseDateWith patterns h dateStr =
     (if dateStr = [] \<or> toLowerCase dateStr = ''null'' then Some (Date_now h)
      else tryPatterns patterns h (trim dateStr))"

definition parseDate :: "'n host \<Rightarrow> string \<Rightarrow> int option" where
  "parseDate h dateStr = parseDateWith datePatterns h dateStr"

definition differenceInDays :: "int \<Rightarrow> int \<Rightarrow> int" where
  "differenceInDays date1 date2 = \<bar>date2 - date1\<bar> div msPerDay"

subsection \<open>The data of \<open>processData\<close>\<close>

text \<open>
  A validated row. The dates are the time values of valid \<open>Date\<close> objects: \<open>parseDate\<close>
  returns \<open>null\<close> or a valid date, and a row with a \<open>null\<close> date is never pushed.
\<close>

record 'n EmployeeRecord =
  EmpID :: 'n
  ProjectID :: 'n
  DateFrom :: int
  DateTo :: int

text \<open>
  The two result types. The types of TypeScript are structural: \<open>PairProjectDays\<close> has
  the fields of \<open>PairTotalDays\<close> and \<open>projectId\<close>.
\<close>

record 'n PairTotalDays =
  emp1 :: 'n
  emp2 :: 'n
  totalDaysWorked :: int

record 'n PairProjectDays = "'n PairTotalDays" +
  projectId :: 'n

text \<open>
  A \<open>Map\<close> keeps its entries in the order of their first insertion: an association list.
  \<open>map_of\<close> is \<open>has\<close>/\<open>get\<close>, \<open>AList.update\<close> is \<open>set\<close> (an existing key keeps its place, a
  new one goes to the end), \<open>Map_values\<close> is \<open>values()\<close>.

  The keys of the source are the strings \<^verbatim>\<open>`${emp1}-${emp2}-${projectId}`\<close> and
  \<^verbatim>\<open>`${emp1}-${emp2}`\<close>. Different numbers print differently, and a number prints with
  a \<open>-\<close> only as its first character or right after an \<open>e\<close>, and never ends in \<open>-\<close> or
  \<open>e\<close>, so the string determines the numbers: the model keys the maps by the tuples.
\<close>

type_synonym ('k, 'v) Map = "('k \<times> 'v) list"

definition Map_values :: "('k, 'v) Map \<Rightarrow> 'v list" where
  "Map_values m = map snd m"

type_synonym 'n pairMaps =
  "('n \<times> 'n \<times> 'n, 'n PairProjectDays) Map \<times> ('n \<times> 'n, 'n PairTotalDays) Map"

text \<open>The state of the component (\<open>useState\<close>).\<close>

record 'n AppState =
  pairs :: "'n PairProjectDays list"
  error :: "string option"
  fileUploaded :: bool

subsection \<open>\<open>processData\<close>: validation\<close>

text \<open>
  The first loop. A row with fewer than four tokens is skipped; a row with a \<open>NaN\<close> id or a
  \<open>null\<close> date ends the function (\<open>None\<close>); every other row is pushed.
\<close>

fun collectRecords ::
  "'n host \<Rightarrow> string list list \<Rightarrow> 'n EmployeeRecord list \<Rightarrow> 'n EmployeeRecord list option"
where
  "collectRecords h [] records = Some records"
| "collectRecords h (row # data) records =
     (if length row < 4 then collectRecords h data records
      else
        (case (Number h (row ! 0), Number h (row ! 1),
               parseDate h (row ! 2), parseDate h (row ! 3)) of
           (Some empID, Some projectID, Some dateFrom, Some dateTo) \<Rightarrow>
             collectRecords h data
               (records @
                 [\<lparr>EmpID = empID, ProjectID = projectID, DateFrom = dateFrom, DateTo = dateTo\<rparr>])
         | _ \<Rightarrow> None))"

subsection \<open>\<open>processData\<close>: the overlap of every pair of records\<close>

text \<open>The body of the inner loop, on the two maps.\<close>

definition pairStep ::
  "('n::linorder) EmployeeRecord \<Rightarrow> 'n EmployeeRecord \<Rightarrow> 'n pairMaps \<Rightarrow> 'n pairMaps"
where
  "pairStep p1 p2 maps =
     (case maps of (pairMap, pairMapTotal) \<Rightarrow>
        if ProjectID p1 = ProjectID p2 \<and> EmpID p1 \<noteq> EmpID p2 then
          (let start = (if DateFrom p1 > DateFrom p2 then DateFrom p1 else DateFrom p2);
               end' = (if DateTo p1 < DateTo p2 then DateTo p1 else DateTo p2)
           in if end' \<ge> start then
                (let days = differenceInDays end' start + 1;
                     e1 = min (EmpID p1) (EmpID p2);
                     e2 = max (EmpID p1) (EmpID p2);
                     proj = ProjectID p1;
                     key = (e1, e2, proj);
                     pairMap' =
                       (case map_of pairMap key of
                          Some existing \<Rightarrow>
                            AList.update key
                              (existing\<lparr>totalDaysWorked := totalDaysWorked existing + days\<rparr>)
                              pairMap
                        | None \<Rightarrow>
                            AList.update key
                              \<lparr>emp1 = e1, emp2 = e2, totalDaysWorked = days, projectId = proj\<rparr>
                              pairMap);
                     keyTotal = (e1, e2);
                     pairMapTotal' =
                       (case map_of pairMapTotal keyTotal of
                          Some existing \<Rightarrow>
                            AList.update keyTotal
                              (existing\<lparr>totalDaysWorked := totalDaysWorked existing + days\<rparr>)
                              pairMapTotal
                        | None \<Rightarrow>
                            AList.update keyTotal
                              \<lparr>emp1 = e1, emp2 = e2, totalDaysWorked = days\<rparr>
                              pairMapTotal)
                 in (pairMap', pairMapTotal'))
              else maps)
        else maps)"

text \<open>The two loops: \<open>i\<close> over all indices, \<open>j\<close> over the indices after \<open>i\<close>.\<close>

definition overlapLoops :: "('n::linorder) EmployeeRecord list \<Rightarrow> 'n pairMaps \<Rightarrow> 'n pairMaps" where
  "overlapLoops records maps =
     fold (\<lambda>i. fold (\<lambda>j. pairStep (records ! i) (records ! j)) [i + 1 ..< length records])
       [0 ..< length records] maps"

subsection \<open>\<open>processData\<close>: the pairs with the highest total\<close>

text \<open>\<^verbatim>\<open>Math.max\<close> of no argument is \<open>-Infinity\<close>.\<close>

datatype number = NegInfinity | Num int

definition Math_max :: "int list \<Rightarrow> number" where
  "Math_max xs =
     fold (\<lambda>x highest. case highest of NegInfinity \<Rightarrow> Num x | Num m \<Rightarrow> Num (max m x))
       xs NegInfinity"

definition selectTop ::
  "('k, 'n PairProjectDays) Map \<Rightarrow> ('j, 'n PairTotalDays) Map \<Rightarrow> 'n PairProjectDays list"
where
  "selectTop pairMap pairMapTotal =
     (let highestMaxScore = Math_max (map totalDaysWorked (Map_values pairMapTotal));
          pairMapTotalResult =
            filter (\<lambda>member. Num (totalDaysWorked member) = highestMaxScore)
              (Map_values pairMapTotal)
      in filter
           (\<lambda>ppd. list_ex (\<lambda>ptd. emp1 ptd = emp1 ppd \<and> emp2 ptd = emp2 ppd) pairMapTotalResult)
           (Map_values pairMap))"

subsection \<open>\<open>processData\<close> and what is shown\<close>

definition processData ::
  "('n::linorder) host \<Rightarrow> string list list \<Rightarrow> 'n AppState \<Rightarrow> 'n AppState"
where
  "processData h data st =
     (let st1 = st\<lparr>error := None\<rparr>
      in case collectRecords h data [] of
           None \<Rightarrow> st1\<lparr>error := Some ''Invalid data format in CSV.'', fileUploaded := False\<rparr>
         | Some records \<Rightarrow>
             (case overlapLoops records ([], []) of
                (pairMap, pairMapTotal) \<Rightarrow> st1\<lparr>pairs := selectTop pairMap pairMapTotal\<rparr>))"

text \<open>
  What the component renders below the file input: the error paragraph, and, when a file
  is uploaded, the table with its count of rows or the message \<open>None Pairs Found!\<close>.
\<close>

datatype 'n body = NoBody | Table nat "'n PairProjectDays list" | NonePairsFound

record 'n view =
  errorText :: "string option"
  body :: "'n body"

definition render :: "'n AppState \<Rightarrow> 'n view" where
  "render st =
     \<lparr>errorText = (case error st of None \<Rightarrow> None | Some e \<Rightarrow> if e = [] then None else Some e),
      body =
        (if fileUploaded st then
           (if length (pairs st) > 0 then Table (length (pairs st)) (pairs st)
            else NonePairsFound)
         else NoBody)\<rparr>"

subsection \<open>The earlier version: \<open>processData\<close> of \<open>src/unnamed/part_000\<close>\<close>

text \<open>
  The earlier version has one map and shows all of its values. Its definitions carry the
  suffix \<open>0\<close>; its array of validated rows is called \<open>projects\<close>.
\<close>

fun collectProjects ::
  "'n host \<Rightarrow> string list list \<Rightarrow> 'n EmployeeRecord list \<Rightarrow> 'n EmployeeRecord list option"
where
  "collectProjects h [] projects = Some projects"
| "collectProjects h (row # data) projects =
     (if length row < 4 then collectProjects h data projects
      else
        (case (Number h (row ! 0), Number h (row ! 1),
               parseDate h (row ! 2), parseDate h (row ! 3)) of
           (Some empID, Some projectID, Some dateFrom, Some dateTo) \<Rightarrow>
             collectProjects h data
               (projects @
                 [\<lparr>EmpID = empID, ProjectID = projectID, DateFrom = dateFrom, DateTo = dateTo\<rparr>])
         | _ \<Rightarrow> None))"

definition pairStep0 ::
  "('n::linorder) EmployeeRecord \<Rightarrow> 'n EmployeeRecord \<Rightarrow>
   ('n \<times> 'n \<times> 'n, 'n PairProjectDays) Map \<Rightarrow> ('n \<times> 'n \<times> 'n, 'n PairProjectDays) Map"
where
  "pairStep0 p1 p2 pairMap =
     (if ProjectID p1 = ProjectID p2 \<and> EmpID p1 \<noteq> EmpID p2 then
        (let start = (if DateFrom p1 > DateFrom p2 then DateFrom p1 else DateFrom p2);
             end' = (if DateTo p1 < DateTo p2 then DateTo p1 else DateTo p2)
         in if end' \<ge> start then
              (let days = differenceInDays end' start + 1;
                   e1 = min (EmpID p1) (EmpID p2);
                   e2 = max (EmpID p1) (EmpID p2);
                   proj = ProjectID p1;
                   key = (e1, e2, proj)
               in case map_of pairMap key of
                    Some existing \<Rightarrow>
                      AList.update key
                        (existing\<lparr>totalDaysWorked := totalDaysWorked existing + days\<rparr>)
                        pairMap
                  | None \<Rightarrow>
                      AList.update key
                        \<lparr>emp1 = e1, emp2 = e2, totalDaysWorked = days, projectId = proj\<rparr>
                        pairMap)
            else pairMap)
      else pairMap)"

definition overlapLoops0 ::
  "('n::linorder) EmployeeRecord list \<Rightarrow>
   ('n \<times> 'n \<times> 'n, 'n PairProjectDays) Map \<Rightarrow> ('n \<times> 'n \<times> 'n, 'n PairProjectDays) Map"
where
  "overlapLoops0 projects pairMap =
     fold (\<lambda>i. fold (\<lambda>j. pairStep0 (projects ! i) (projects ! j)) [i + 1 ..< length projects])
       [0 ..< length projects] pairMap"

definition processData0 ::
  "('n::linorder) host \<Rightarrow> string list list \<Rightarrow> 'n AppState \<Rightarrow> 'n AppState"
where
  "processData0 h data st =
     (let st1 = st\<lparr>error := None\<rparr>
      in case collectProjects h data [] of
           None \<Rightarrow> st1\<lparr>error := Some ''Invalid data format in CSV.'', fileUploaded := False\<rparr>
         | Some projects \<Rightarrow> st1\<lparr>pairs := Map_values (overlapLoops0 projects [])\<rparr>)"

subsection \<open>A host for the examples\<close>

text \<open>
  A runtime in the time zone UTC, at the clock time 2024-06-01T00:00:00Z. Its \<open>Number\<close>
  reads the unsigned decimal tokens and its \<open>Date_parse\<close> reads nothing, which is less
  than a real runtime reads; the examples use tokens on which every runtime agrees with it.
\<close>

definition utcHost :: "int host" where
  "utcHost =
     \<lparr>Date_now = 1717200000000,
      UTC = (\<lambda>t. t),
      Number = (\<lambda>s. if s \<noteq> [] \<and> list_all isDigit s then Some (NumberOfDigits s) else None),
      Date_parse = (\<lambda>s. None)\<rparr>"

section \<open>Notions used in the statements\<close>

text \<open>
  A row of at least four tokens is invalid when one of its ids is not a number or one of
  its dates does not parse: the condition of the \<open>if\<close> in the first loop.
\<close>

definition invalidRow :: "'n host \<Rightarrow> string list \<Rightarrow> bool" where
  "invalidRow h row =
     (Number h (row ! 0) = None \<or> Number h (row ! 1) = None \<or>
      parseDate h (row ! 2) = None \<or> parseDate h (row ! 3) = None)"


text \<open>
  A host whose local time is within a day of UTC, as every time zone is. Without a bound
  on \<open>UTC\<close> nothing says that a date built from four digits of year is in the range of
  \<open>TimeClip\<close>.
\<close>

definition saneHost :: "'n host \<Rightarrow> bool" where
  "saneHost h = (\<forall>t. \<bar>UTC h t - t\<bar> \<le> msPerDay)"

text \<open>
  The pairs \<open>(records[i], records[j])\<close> with \<open>i < j\<close>, in the order in which the two loops
  reach them.
\<close>

fun allPairs :: "'a list \<Rightarrow> ('a \<times> 'a) list" where
  "allPairs [] = []"
| "allPairs (x # xs) = map (Pair x) xs @ allPairs xs"

text \<open>
  The days that a pair of records contributes: for two records of one project and of two
  employees, the number of days from the later start to the earlier end, both counted;
  0 when the pair contributes nothing.
\<close>

definition overlapDays :: "'n EmployeeRecord \<Rightarrow> 'n EmployeeRecord \<Rightarrow> int" where
  "overlapDays p1 p2 =
     (let s = max (DateFrom p1) (DateFrom p2);
          e = min (DateTo p1) (DateTo p2)
      in if ProjectID p1 = ProjectID p2 \<and> EmpID p1 \<noteq> EmpID p2 \<and> s \<le> e
         then (e - s) div 86400000 + 1 else 0)"

text \<open>The keys under which a pair of records is counted.\<close>

definition projectKey :: "('n::linorder) EmployeeRecord \<Rightarrow> 'n EmployeeRecord \<Rightarrow> 'n \<times> 'n \<times> 'n" where
  "projectKey p1 p2 = (min (EmpID p1) (EmpID p2), max (EmpID p1) (EmpID p2), ProjectID p1)"

definition totalKey :: "('n::linorder) EmployeeRecord \<Rightarrow> 'n EmployeeRecord \<Rightarrow> 'n \<times> 'n" where
  "totalKey p1 p2 = (min (EmpID p1) (EmpID p2), max (EmpID p1) (EmpID p2))"

text \<open>The total of a key in a map, 0 when the map has no entry for the key.\<close>

definition daysOf :: "('k, ('n, 'z) PairTotalDays_scheme) Map \<Rightarrow> 'k \<Rightarrow> int" where
  "daysOf m k = (case map_of m k of None \<Rightarrow> 0 | Some e \<Rightarrow> totalDaysWorked e)"

text \<open>
  One of the two blocks of the loop body that add \<open>days\<close> to a map: the entry of the key
  gets the days of \<open>new\<close> added, or \<open>new\<close> becomes the entry.
\<close>

definition bump ::
  "'k \<Rightarrow> ('n, 'z) PairTotalDays_scheme \<Rightarrow> ('k, ('n, 'z) PairTotalDays_scheme) Map \<Rightarrow>
   ('k, ('n, 'z) PairTotalDays_scheme) Map"
where
  "bump key new m =
     (case map_of m key of
        Some existing \<Rightarrow>
          AList.update key
            (existing\<lparr>totalDaysWorked := totalDaysWorked existing + totalDaysWorked new\<rparr>) m
      | None \<Rightarrow> AList.update key new m)"

text \<open>
  The entries of a map are in order when each entry sits under its own key, has
  \<open>emp1 < emp2\<close> and counts at least one day.
\<close>

definition entriesOk ::
  "(('n::linorder, 'z) PairTotalDays_scheme \<Rightarrow> 'k) \<Rightarrow> ('k, ('n, 'z) PairTotalDays_scheme) Map \<Rightarrow> bool"
where
  "entriesOk keyOf m =
     (\<forall>(k, e) \<in> set m. keyOf e = k \<and> emp1 e < emp2 e \<and> 1 \<le> totalDaysWorked e)"

definition keyOfProject :: "'n PairProjectDays \<Rightarrow> 'n \<times> 'n \<times> 'n" where
  "keyOfProject e = (emp1 e, emp2 e, projectId e)"

definition keyOfTotal :: "'n PairTotalDays \<Rightarrow> 'n \<times> 'n" where
  "keyOfTotal e = (emp1 e, emp2 e)"


section \<open>Validation\<close>

lemma collectRecords_invalid:
  "row \<in> set data \<Longrightarrow> 4 \<le> length row \<Longrightarrow> invalidRow h row \<Longrightarrow>
   collectRecords h data records = None"
proof (induction data arbitrary: records)
  case Nil
  then show ?case by simp
next
  case (Cons r data)
  show ?case
  proof (cases "r = row")
    case True
    with Cons.prems show ?thesis
      by (auto simp: invalidRow_def split: option.splits)
  next
    case False
    with Cons.prems have "row \<in> set data" by simp
    from Cons.IH[OF this Cons.prems(2,3)] show ?thesis
      by (simp split: option.splits)
  qed
qed


lemma processData_invalid:
  "collectRecords h data [] = None \<Longrightarrow>
   processData h data st =
     st\<lparr>error := Some ''Invalid data format in CSV.'', fileUploaded := False\<rparr>"
  by (simp add: processData_def)

text \<open>
  C3. A batch with a row of at least four tokens whose employee id or project id is not a
  number, or one of whose dates does not parse, ends \<open>processData\<close> with the error set and
  with nothing else changed: \<open>setPairs\<close> is not called, and the component renders the
  error and no table, whatever the other rows are.
\<close>

theorem processData_fail_fast:
  assumes "row \<in> set data" and "4 \<le> length row" and "invalidRow h row"
  shows "processData h data st =
           st\<lparr>error := Some ''Invalid data format in CSV.'', fileUploaded := False\<rparr> \<and>
         render (processData h data st) =
           \<lparr>errorText = Some ''Invalid data format in CSV.'', body = NoBody\<rparr>"
proof -
  have "collectRecords h data [] = None"
    using assms by (rule collectRecords_invalid)
  then have "processData h data st =
      st\<lparr>error := Some ''Invalid data format in CSV.'', fileUploaded := False\<rparr>"
    by (rule processData_invalid)
  then show ?thesis by (simp add: render_def)
qed

theorem processData_fail_fast_witness:
  "invalidRow utcHost [''x'', ''1'', ''2024-01-01'', ''2024-01-10''] \<and>
   render (processData utcHost
       [[''1'', ''1'', ''2024-01-01'', ''2024-01-10''],
        [''x'', ''1'', ''2024-01-01'', ''2024-01-10''],
        [''2'', ''1'', ''2024-01-05'', ''2024-01-15'']]
       \<lparr>pairs = [], error = None, fileUploaded = True\<rparr>) =
     \<lparr>errorText = Some ''Invalid data format in CSV.'', body = NoBody\<rparr>"
proof -
  have bad: "invalidRow utcHost [''x'', ''1'', ''2024-01-01'', ''2024-01-10'']"
    by code_simp
  show ?thesis
    using bad
      processData_fail_fast [of "[''x'', ''1'', ''2024-01-01'', ''2024-01-10'']"
        "[[''1'', ''1'', ''2024-01-01'', ''2024-01-10''],
          [''x'', ''1'', ''2024-01-01'', ''2024-01-10''],
          [''2'', ''1'', ''2024-01-05'', ''2024-01-15'']]"
        utcHost "\<lparr>pairs = [], error = None, fileUploaded = True\<rparr>"]
    by (simp add: render_def)
qed



section \<open>Dates\<close>

text \<open>
  C9. For the empty token and for every token that \<open>toLowerCase\<close> maps to \<open>null\<close>,
  \<open>parseDate\<close> returns the date of the clock, \<^verbatim>\<open>new Date()\<close>, and not \<open>null\<close>.
\<close>

theorem parseDate_today:
  "dateStr = [] \<or> toLowerCase dateStr = ''null'' \<Longrightarrow> parseDate h dateStr = Some (Date_now h)"
  by (auto simp: parseDate_def parseDateWith_def)

theorem parseDate_today_witness:
  "toLowerCase ''NuLL'' = ''null'' \<and> parseDate utcHost ''NuLL'' = Some (Date_now utcHost) \<and>
   parseDate utcHost [] = Some (Date_now utcHost)"
proof -
  have lower: "toLowerCase ''NuLL'' = ''null''"
    by code_simp
  show ?thesis
    using lower parseDate_today [of "''NuLL''" utcHost] parseDate_today [of "[]" utcHost]
    by simp
qed

text \<open>
  C4. A token that matches a pattern with a month or day out of range is not rejected:
  the \<open>Date\<close> constructor carries the excess into the next month or year and the date is
  valid, so the check \<^verbatim>\<open>!isNaN(d.getTime())\<close> of \<open>parseDate\<close> passes. In the time zone UTC
  the token \<open>2024-13-05\<close> matches the first pattern and parses to the date of
  \<open>2025-01-05\<close>, and \<open>2024-02-30\<close> to the date of \<open>2024-03-01\<close>, although the fallback parser
  of this host accepts neither.
\<close>

theorem parseDate_month_13:
  "regex_test regex_ymd_dash ''2024-13-05'' \<and>
   newDate utcHost 2024 12 5 = Some 1736035200000 \<and>
   parseDate utcHost ''2024-13-05'' = Some 1736035200000 \<and>
   parseDate utcHost ''2025-01-05'' = Some 1736035200000 \<and>
   Date_parse utcHost ''2024-13-05'' = None \<and>
   parseDate utcHost ''2024-02-30'' = parseDate utcHost ''2024-03-01''"
  by code_simp

section \<open>The selection of the pairs with the highest total\<close>






section \<open>The overlap of the pairs of records\<close>

subsection \<open>The two loops visit the pairs of \<open>allPairs\<close>\<close>

lemma fold_upt_Suc: "fold g [Suc a ..< Suc b] = fold (\<lambda>j. g (Suc j)) [a ..< b]"
proof -
  have "fold g (map Suc [a ..< b]) = fold (g \<circ> Suc) [a ..< b]"
    by (rule fold_map)
  then show ?thesis by (simp add: map_Suc_upt comp_def)
qed

lemma fold_nth: "fold (\<lambda>j. g (xs ! j)) [0 ..< length xs] = fold g xs"
proof -
  have "fold g (map (nth xs) [0 ..< length xs]) = fold (g \<circ> nth xs) [0 ..< length xs]"
    by (rule fold_map)
  then show ?thesis by (simp add: map_nth comp_def)
qed

lemma loops_allPairs:
  "fold (\<lambda>i. fold (\<lambda>j. F (xs ! i) (xs ! j)) [Suc i ..< length xs]) [0 ..< length xs] =
   fold (\<lambda>(a, b). F a b) (allPairs xs)"
proof (induction xs)
  case Nil
  then show ?case by simp
next
  case (Cons x xs)
  let ?G = "\<lambda>i. fold (\<lambda>j. F ((x # xs) ! i) ((x # xs) ! j)) [Suc i ..< Suc (length xs)]"
  have "?G 0 = fold (\<lambda>j. F x (xs ! j)) [0 ..< length xs]"
    by (simp only: fold_upt_Suc nth_Cons_0 nth_Cons_Suc)
  then have first: "?G 0 = fold (F x) xs"
    by (simp only: fold_nth)
  have rest: "fold ?G [Suc 0 ..< Suc (length xs)] =
      fold (\<lambda>i. fold (\<lambda>j. F (xs ! i) (xs ! j)) [Suc i ..< length xs]) [0 ..< length xs]"
    by (simp only: fold_upt_Suc nth_Cons_Suc)
  have pairs: "fold (\<lambda>(a, b). F a b) (map (Pair x) xs) = fold (F x) xs"
    by (simp add: fold_map comp_def)
  have "[0 ..< length (x # xs)] = 0 # [Suc 0 ..< Suc (length xs)]"
    by (simp add: upt_conv_Cons del: upt_Suc)
  then have "fold (\<lambda>i. fold (\<lambda>j. F ((x # xs) ! i) ((x # xs) ! j)) [Suc i ..< length (x # xs)])
      [0 ..< length (x # xs)] = fold ?G [Suc 0 ..< Suc (length xs)] \<circ> ?G 0"
    by (simp del: upt_Suc)
  also have "\<dots> = fold (\<lambda>(a, b). F a b) (allPairs xs) \<circ> fold (F x) xs"
    unfolding rest first Cons.IH ..
  also have "\<dots> = fold (\<lambda>(a, b). F a b) (allPairs (x # xs))"
    by (simp add: pairs)
  finally show ?case .
qed

lemma overlapLoops_allPairs:
  "overlapLoops records maps = fold (\<lambda>(p1, p2). pairStep p1 p2) (allPairs records) maps"
  unfolding overlapLoops_def by (simp add: loops_allPairs)

lemma overlapLoops0_allPairs:
  "overlapLoops0 projects pairMap = fold (\<lambda>(p1, p2). pairStep0 p1 p2) (allPairs projects) pairMap"
  unfolding overlapLoops0_def by (simp add: loops_allPairs)

subsection \<open>The loop body\<close>

lemma div_day_nonneg: "s \<le> e \<Longrightarrow> 0 \<le> (e - s) div (86400000::int)"
  by (simp add: pos_imp_zdiv_nonneg_iff)

lemma overlapDays_pos:
  "0 < overlapDays p1 p2 \<longleftrightarrow>
   ProjectID p1 = ProjectID p2 \<and> EmpID p1 \<noteq> EmpID p2 \<and>
   max (DateFrom p1) (DateFrom p2) \<le> min (DateTo p1) (DateTo p2)"
proof (cases "ProjectID p1 = ProjectID p2 \<and> EmpID p1 \<noteq> EmpID p2 \<and>
   max (DateFrom p1) (DateFrom p2) \<le> min (DateTo p1) (DateTo p2)")
  case True
  then have "0 \<le> (min (DateTo p1) (DateTo p2) - max (DateFrom p1) (DateFrom p2)) div 86400000"
    by (intro div_day_nonneg) simp
  with True show ?thesis
    by (simp add: overlapDays_def Let_def)
next
  case False
  then show ?thesis
    by (auto simp: overlapDays_def Let_def)
qed

lemma overlapDays_nonneg: "0 \<le> overlapDays p1 p2"
  using overlapDays_pos [of p1 p2] by (auto simp: overlapDays_def Let_def)

lemma overlapDays_commute: "overlapDays p1 p2 = overlapDays p2 p1"
  by (auto simp: overlapDays_def Let_def max.commute min.commute)

lemma pairStep_bump:
  "pairStep p1 p2 (pairMap, pairMapTotal) =
     (if 0 < overlapDays p1 p2 then
        (bump (projectKey p1 p2)
           \<lparr>emp1 = min (EmpID p1) (EmpID p2), emp2 = max (EmpID p1) (EmpID p2),
            totalDaysWorked = overlapDays p1 p2, projectId = ProjectID p1\<rparr> pairMap,
         bump (totalKey p1 p2)
           \<lparr>emp1 = min (EmpID p1) (EmpID p2), emp2 = max (EmpID p1) (EmpID p2),
            totalDaysWorked = overlapDays p1 p2\<rparr> pairMapTotal)
      else (pairMap, pairMapTotal))"
proof (cases "0 < overlapDays p1 p2")
  case True
  then have q: "ProjectID p1 = ProjectID p2" "EmpID p1 \<noteq> EmpID p2"
      "max (DateFrom p1) (DateFrom p2) \<le> min (DateTo p1) (DateTo p2)"
    by (simp_all add: overlapDays_pos)
  have start: "(if DateFrom p1 > DateFrom p2 then DateFrom p1 else DateFrom p2) =
      max (DateFrom p1) (DateFrom p2)"
    by (simp add: max_def)
  have end': "(if DateTo p1 < DateTo p2 then DateTo p1 else DateTo p2) =
      min (DateTo p1) (DateTo p2)"
    by (simp add: min_def)
  have days: "differenceInDays (min (DateTo p1) (DateTo p2)) (max (DateFrom p1) (DateFrom p2)) + 1 =
      overlapDays p1 p2"
  proof -
    have "\<bar>max (DateFrom p1) (DateFrom p2) - min (DateTo p1) (DateTo p2)\<bar> =
        min (DateTo p1) (DateTo p2) - max (DateFrom p1) (DateFrom p2)"
      using q(3) by linarith
    then show ?thesis
      using q by (simp only: differenceInDays_def overlapDays_def Let_def msPerDay_def) simp
  qed
  show ?thesis
    using True q
    by (simp add: pairStep_def start end' days Let_def bump_def projectKey_def totalKey_def
        split: option.splits)
next
  case False
  then have "\<not> (ProjectID p1 = ProjectID p2 \<and> EmpID p1 \<noteq> EmpID p2 \<and>
      max (DateFrom p1) (DateFrom p2) \<le> min (DateTo p1) (DateTo p2))"
    by (simp add: overlapDays_pos)
  moreover have start: "(if DateFrom p1 > DateFrom p2 then DateFrom p1 else DateFrom p2) =
      max (DateFrom p1) (DateFrom p2)"
    by (simp add: max_def)
  moreover have end': "(if DateTo p1 < DateTo p2 then DateTo p1 else DateTo p2) =
      min (DateTo p1) (DateTo p2)"
    by (simp add: min_def)
  ultimately show ?thesis
    using False by (auto simp: pairStep_def Let_def)
qed

lemma pairStep0_bump:
  "pairStep0 p1 p2 pairMap =
     (if 0 < overlapDays p1 p2 then
        bump (projectKey p1 p2)
           \<lparr>emp1 = min (EmpID p1) (EmpID p2), emp2 = max (EmpID p1) (EmpID p2),
            totalDaysWorked = overlapDays p1 p2, projectId = ProjectID p1\<rparr> pairMap
      else pairMap)"
proof (cases "0 < overlapDays p1 p2")
  case True
  then have q: "ProjectID p1 = ProjectID p2" "EmpID p1 \<noteq> EmpID p2"
      "max (DateFrom p1) (DateFrom p2) \<le> min (DateTo p1) (DateTo p2)"
    by (simp_all add: overlapDays_pos)
  have start: "(if DateFrom p1 > DateFrom p2 then DateFrom p1 else DateFrom p2) =
      max (DateFrom p1) (DateFrom p2)"
    by (simp add: max_def)
  have end': "(if DateTo p1 < DateTo p2 then DateTo p1 else DateTo p2) =
      min (DateTo p1) (DateTo p2)"
    by (simp add: min_def)
  have days: "differenceInDays (min (DateTo p1) (DateTo p2)) (max (DateFrom p1) (DateFrom p2)) + 1 =
      overlapDays p1 p2"
  proof -
    have "\<bar>max (DateFrom p1) (DateFrom p2) - min (DateTo p1) (DateTo p2)\<bar> =
        min (DateTo p1) (DateTo p2) - max (DateFrom p1) (DateFrom p2)"
      using q(3) by linarith
    then show ?thesis
      using q by (simp only: differenceInDays_def overlapDays_def Let_def msPerDay_def) simp
  qed
  show ?thesis
    using True q
    by (simp add: pairStep0_def start end' days Let_def bump_def projectKey_def
        split: option.splits)
next
  case False
  then have "\<not> (ProjectID p1 = ProjectID p2 \<and> EmpID p1 \<noteq> EmpID p2 \<and>
      max (DateFrom p1) (DateFrom p2) \<le> min (DateTo p1) (DateTo p2))"
    by (simp add: overlapDays_pos)
  moreover have start: "(if DateFrom p1 > DateFrom p2 then DateFrom p1 else DateFrom p2) =
      max (DateFrom p1) (DateFrom p2)"
    by (simp add: max_def)
  moreover have end': "(if DateTo p1 < DateTo p2 then DateTo p1 else DateTo p2) =
      min (DateTo p1) (DateTo p2)"
    by (simp add: min_def)
  ultimately show ?thesis
    using False by (auto simp: pairStep0_def Let_def)
qed

lemma pairStep_fst: "fst (pairStep p1 p2 maps) = pairStep0 p1 p2 (fst maps)"
  by (cases maps) (simp add: pairStep_bump pairStep0_bump)

lemma fold_pairStep_fst:
  "fst (fold (\<lambda>(p1, p2). pairStep p1 p2) ps maps) = fold (\<lambda>(p1, p2). pairStep0 p1 p2) ps (fst maps)"
  by (induction ps arbitrary: maps) (auto simp: pairStep_fst)

lemma overlapLoops_fst: "fst (overlapLoops records maps) = overlapLoops0 records (fst maps)"
  by (simp add: overlapLoops_allPairs overlapLoops0_allPairs fold_pairStep_fst)

lemma collectProjects_eq: "collectProjects h data acc = collectRecords h data acc"
  by (induction data arbitrary: acc) (auto split: option.splits)


lemma daysOf_bump:
  "daysOf (bump key new m) k = daysOf m k + (if k = key then totalDaysWorked new else 0)"
  by (auto simp: daysOf_def bump_def update_conv' split: option.splits)

lemma daysOf_pairStep_fst:
  "daysOf (fst (pairStep p1 p2 maps)) k =
   daysOf (fst maps) k + (if k = projectKey p1 p2 then overlapDays p1 p2 else 0)"
  using overlapDays_nonneg [of p1 p2]
  by (cases maps) (simp add: pairStep_bump daysOf_bump)

lemma daysOf_pairStep_snd:
  "daysOf (snd (pairStep p1 p2 maps)) k =
   daysOf (snd maps) k + (if k = totalKey p1 p2 then overlapDays p1 p2 else 0)"
  using overlapDays_nonneg [of p1 p2]
  by (cases maps) (simp add: pairStep_bump daysOf_bump)

lemma pairStep_no_overlap: "\<not> 0 < overlapDays p1 p2 \<Longrightarrow> pairStep p1 p2 maps = maps"
  by (cases maps) (simp add: pairStep_bump)



text \<open>
  C10. The earlier version validates the rows in the same way and its loops build the same
  per-project map; \<open>processData\<close> differs from it in the selection that it applies to this
  map before \<open>setPairs\<close>, and in nothing else.
\<close>

theorem pairMap_of_earlier_version:
  "collectProjects h data [] = collectRecords h data [] \<and>
   overlapLoops0 records [] = fst (overlapLoops records ([], [])) \<and>
   processData h data st =
     (processData0 h data st)
       \<lparr>pairs :=
          (case collectProjects h data [] of
             None \<Rightarrow> pairs st
           | Some projects \<Rightarrow>
               selectTop (overlapLoops0 projects []) (snd (overlapLoops projects ([], []))))\<rparr>"
proof (intro conjI)
  show "collectProjects h data [] = collectRecords h data []"
    by (rule collectProjects_eq)
  show same: "overlapLoops0 records [] = fst (overlapLoops records ([], []))" for records
    by (simp add: overlapLoops_fst)
  show "processData h data st =
     (processData0 h data st)
       \<lparr>pairs :=
          (case collectProjects h data [] of
             None \<Rightarrow> pairs st
           | Some projects \<Rightarrow>
               selectTop (overlapLoops0 projects []) (snd (overlapLoops projects ([], []))))\<rparr>"
    by (simp add: processData_def processData0_def collectProjects_eq same case_prod_unfold
        split: option.splits)
qed


subsection \<open>The totals as sums over the pairs of records\<close>

lemma daysOf_fold_fst:
  "daysOf (fst (fold (\<lambda>(p1, p2). pairStep p1 p2) ps maps)) k =
   daysOf (fst maps) k +
   (\<Sum>(p1, p2)\<leftarrow>ps. if k = projectKey p1 p2 then overlapDays p1 p2 else 0)"
proof (induction ps arbitrary: maps)
  case Nil
  then show ?case by simp
next
  case (Cons p ps)
  obtain p1 p2 where p: "p = (p1, p2)" by (cases p)
  show ?case
    by (simp add: p Cons.IH daysOf_pairStep_fst)
qed

lemma daysOf_fold_snd:
  "daysOf (snd (fold (\<lambda>(p1, p2). pairStep p1 p2) ps maps)) k =
   daysOf (snd maps) k +
   (\<Sum>(p1, p2)\<leftarrow>ps. if k = totalKey p1 p2 then overlapDays p1 p2 else 0)"
proof (induction ps arbitrary: maps)
  case Nil
  then show ?case by simp
next
  case (Cons p ps)
  obtain p1 p2 where p: "p = (p1, p2)" by (cases p)
  show ?case
    by (simp add: p Cons.IH daysOf_pairStep_snd)
qed

lemma daysOf_Nil: "daysOf [] k = 0"
  by (simp add: daysOf_def)

lemma daysOf_overlapLoops_fst:
  "daysOf (fst (overlapLoops records ([], []))) k =
   (\<Sum>(p1, p2)\<leftarrow>allPairs records. if k = projectKey p1 p2 then overlapDays p1 p2 else 0)"
  by (simp add: overlapLoops_allPairs daysOf_fold_fst daysOf_Nil)

lemma daysOf_overlapLoops_snd:
  "daysOf (snd (overlapLoops records ([], []))) k =
   (\<Sum>(p1, p2)\<leftarrow>allPairs records. if k = totalKey p1 p2 then overlapDays p1 p2 else 0)"
  by (simp add: overlapLoops_allPairs daysOf_fold_snd daysOf_Nil)

subsection \<open>A sum over the pairs of a list does not depend on the order of the list\<close>

lemma sum_list_map_mset:
  fixes g :: "'a \<Rightarrow> int"
  assumes "mset xs = mset ys"
  shows "sum_list (map g xs) = sum_list (map g ys)"
proof -
  have "sum_list (map g xs) = sum_mset (image_mset g (mset xs))"
    by (metis mset_map sum_mset_sum_list)
  also have "\<dots> = sum_mset (image_mset g (mset ys))"
    by (simp add: assms)
  also have "\<dots> = sum_list (map g ys)"
    by (metis mset_map sum_mset_sum_list)
  finally show ?thesis .
qed

lemma sum_allPairs_Cons:
  fixes f :: "'a \<Rightarrow> 'a \<Rightarrow> int"
  shows "(\<Sum>(a, b)\<leftarrow>allPairs (x # xs). f a b) =
    (\<Sum>b\<leftarrow>xs. f x b) + (\<Sum>(a, b)\<leftarrow>allPairs xs. f a b)"
  by (simp add: comp_def)

lemma double_sum_allPairs:
  fixes f :: "'a \<Rightarrow> 'a \<Rightarrow> int"
  assumes sym: "\<And>a b. f a b = f b a"
  shows "(\<Sum>a\<leftarrow>xs. \<Sum>b\<leftarrow>xs. f a b) =
    2 * (\<Sum>(a, b)\<leftarrow>allPairs xs. f a b) + (\<Sum>a\<leftarrow>xs. f a a)"
proof (induction xs)
  case Nil
  then show ?case by simp
next
  case (Cons x xs)
  have col: "(\<Sum>a\<leftarrow>xs. f a x) = (\<Sum>b\<leftarrow>xs. f x b)"
    using sym [of _ x] by simp
  have "(\<Sum>a\<leftarrow>x # xs. \<Sum>b\<leftarrow>x # xs. f a b) =
      f x x + (\<Sum>b\<leftarrow>xs. f x b) + ((\<Sum>a\<leftarrow>xs. f a x) + (\<Sum>a\<leftarrow>xs. \<Sum>b\<leftarrow>xs. f a b))"
    by (simp add: sum_list_addf)
  also have "\<dots> = f x x + 2 * (\<Sum>b\<leftarrow>xs. f x b) +
      (2 * (\<Sum>(a, b)\<leftarrow>allPairs xs. f a b) + (\<Sum>a\<leftarrow>xs. f a a))"
    by (simp add: col Cons.IH)
  also have "\<dots> = 2 * (\<Sum>(a, b)\<leftarrow>allPairs (x # xs). f a b) + (\<Sum>a\<leftarrow>x # xs. f a a)"
    unfolding sum_allPairs_Cons by simp
  finally show ?case .
qed

lemma sum_allPairs_mset:
  fixes f :: "'a \<Rightarrow> 'a \<Rightarrow> int"
  assumes sym: "\<And>a b. f a b = f b a" and perm: "mset xs = mset ys"
  shows "(\<Sum>(a, b)\<leftarrow>allPairs xs. f a b) = (\<Sum>(a, b)\<leftarrow>allPairs ys. f a b)"
proof -
  have inner: "(\<Sum>b\<leftarrow>xs. f a b) = (\<Sum>b\<leftarrow>ys. f a b)" for a
    using perm by (rule sum_list_map_mset)
  have "(\<Sum>a\<leftarrow>xs. \<Sum>b\<leftarrow>xs. f a b) = (\<Sum>a\<leftarrow>xs. \<Sum>b\<leftarrow>ys. f a b)"
    by (simp add: inner)
  also have "\<dots> = (\<Sum>a\<leftarrow>ys. \<Sum>b\<leftarrow>ys. f a b)"
    using perm by (rule sum_list_map_mset)
  finally have double: "(\<Sum>a\<leftarrow>xs. \<Sum>b\<leftarrow>xs. f a b) = (\<Sum>a\<leftarrow>ys. \<Sum>b\<leftarrow>ys. f a b)" .
  have diag: "(\<Sum>a\<leftarrow>xs. f a a) = (\<Sum>a\<leftarrow>ys. f a a)"
    using perm by (rule sum_list_map_mset)
  from double diag double_sum_allPairs [of f xs, OF sym] double_sum_allPairs [of f ys, OF sym]
  show ?thesis by linarith
qed

lemma projectKey_commute: "ProjectID p1 = ProjectID p2 \<Longrightarrow> projectKey p1 p2 = projectKey p2 p1"
  by (simp add: projectKey_def min.commute max.commute)

lemma totalKey_commute: "totalKey p1 p2 = totalKey p2 p1"
  by (simp add: totalKey_def min.commute max.commute)

lemma overlapDays_project: "ProjectID p1 \<noteq> ProjectID p2 \<Longrightarrow> overlapDays p1 p2 = 0"
  by (simp add: overlapDays_def Let_def)

lemma projectDays_commute:
  "(if k = projectKey p1 p2 then overlapDays p1 p2 else 0) =
   (if k = projectKey p2 p1 then overlapDays p2 p1 else 0)"
proof (cases "ProjectID p1 = ProjectID p2")
  case True
  then show ?thesis
    by (simp add: projectKey_commute overlapDays_commute [of p1 p2])
next
  case False
  then have "overlapDays p1 p2 = 0" and "overlapDays p2 p1 = 0"
    by (simp_all add: overlapDays_project)
  then show ?thesis by simp
qed

lemma totalDays_commute:
  "(if k = totalKey p1 p2 then overlapDays p1 p2 else 0) =
   (if k = totalKey p2 p1 then overlapDays p2 p1 else 0)"
  by (simp add: totalKey_commute overlapDays_commute [of p1 p2])

lemma daysOf_overlapLoops_mset:
  assumes "mset records' = mset records"
  shows "daysOf (fst (overlapLoops records' ([], []))) k =
         daysOf (fst (overlapLoops records ([], []))) k"
    and "daysOf (snd (overlapLoops records' ([], []))) j =
         daysOf (snd (overlapLoops records ([], []))) j"
proof -
  show "daysOf (fst (overlapLoops records' ([], []))) k =
         daysOf (fst (overlapLoops records ([], []))) k"
    unfolding daysOf_overlapLoops_fst
    by (rule sum_allPairs_mset [OF projectDays_commute assms])
  show "daysOf (snd (overlapLoops records' ([], []))) j =
         daysOf (snd (overlapLoops records ([], []))) j"
    unfolding daysOf_overlapLoops_snd
    by (rule sum_allPairs_mset [OF totalDays_commute assms])
qed

subsection \<open>The entries of the two maps\<close>

lemma set_update_subset: "set (AList.update k v al) \<subseteq> insert (k, v) (set al)"
  by (induction al) auto

lemma entriesOk_Nil: "entriesOk keyOf []"
  by (simp add: entriesOk_def)

lemma entriesOk_bump:
  assumes ok: "entriesOk keyOf m"
    and new: "keyOf new = key" "emp1 new < emp2 new" "1 \<le> totalDaysWorked new"
    and keyOf: "\<And>e d. keyOf (e\<lparr>totalDaysWorked := d\<rparr>) = keyOf e"
  shows "entriesOk keyOf (bump key new m)"
proof (cases "map_of m key")
  case None
  then have "bump key new m = AList.update key new m"
    by (simp add: bump_def)
  with set_update_subset [of key new m] ok new show ?thesis
    by (auto simp: entriesOk_def)
next
  case (Some existing)
  then have "(key, existing) \<in> set m"
    by (rule map_of_SomeD)
  with ok have ex: "keyOf existing = key" "emp1 existing < emp2 existing"
      "1 \<le> totalDaysWorked existing"
    by (auto simp: entriesOk_def)
  let ?e = "existing\<lparr>totalDaysWorked := totalDaysWorked existing + totalDaysWorked new\<rparr>"
  have "keyOf ?e = key" "emp1 ?e < emp2 ?e" "1 \<le> totalDaysWorked ?e"
    using ex new(3) by (simp_all add: keyOf)
  moreover from Some have "bump key new m = AList.update key ?e m"
    by (simp add: bump_def)
  ultimately show ?thesis
    using set_update_subset [of key ?e m] ok
    by (auto simp: entriesOk_def)
qed

lemma entriesOk_pairStep:
  assumes "entriesOk keyOfProject (fst maps)" and "entriesOk keyOfTotal (snd maps)"
  shows "entriesOk keyOfProject (fst (pairStep p1 p2 maps)) \<and>
         entriesOk keyOfTotal (snd (pairStep p1 p2 maps))"
proof (cases "0 < overlapDays p1 p2")
  case True
  then have "EmpID p1 \<noteq> EmpID p2"
    by (simp add: overlapDays_pos)
  then have lt: "min (EmpID p1) (EmpID p2) < max (EmpID p1) (EmpID p2)"
    by (auto simp: min_def max_def)
  obtain pm pmt where maps: "maps = (pm, pmt)" by (cases maps)
  have "entriesOk keyOfProject
      (bump (projectKey p1 p2)
         \<lparr>emp1 = min (EmpID p1) (EmpID p2), emp2 = max (EmpID p1) (EmpID p2),
          totalDaysWorked = overlapDays p1 p2, projectId = ProjectID p1\<rparr> pm)"
    using assms(1) lt True
    by (intro entriesOk_bump) (simp_all add: maps keyOfProject_def projectKey_def)
  moreover have "entriesOk keyOfTotal
      (bump (totalKey p1 p2)
         \<lparr>emp1 = min (EmpID p1) (EmpID p2), emp2 = max (EmpID p1) (EmpID p2),
          totalDaysWorked = overlapDays p1 p2\<rparr> pmt)"
    using assms(2) lt True
    by (intro entriesOk_bump) (simp_all add: maps keyOfTotal_def totalKey_def)
  ultimately show ?thesis
    using True by (simp add: maps pairStep_bump)
next
  case False
  then show ?thesis
    using assms by (simp add: pairStep_no_overlap)
qed

lemma entriesOk_fold:
  "entriesOk keyOfProject (fst maps) \<Longrightarrow> entriesOk keyOfTotal (snd maps) \<Longrightarrow>
   entriesOk keyOfProject (fst (fold (\<lambda>(p1, p2). pairStep p1 p2) ps maps)) \<and>
   entriesOk keyOfTotal (snd (fold (\<lambda>(p1, p2). pairStep p1 p2) ps maps))"
proof (induction ps arbitrary: maps)
  case Nil
  then show ?case by simp
next
  case (Cons p ps)
  obtain p1 p2 where p: "p = (p1, p2)" by (cases p)
  from entriesOk_pairStep [OF Cons.prems, of p1 p2] Cons.IH [of "pairStep p1 p2 maps"]
  show ?case by (simp add: p)
qed

lemma entriesOk_overlapLoops:
  "entriesOk keyOfProject (fst (overlapLoops records ([], [])))"
  "entriesOk keyOfTotal (snd (overlapLoops records ([], [])))"
  using entriesOk_fold [of "([], [])" "allPairs records"]
  by (simp_all add: overlapLoops_allPairs entriesOk_Nil)

lemma map_of_eq_daysOf:
  assumes m: "entriesOk keyOf m" and m': "entriesOk keyOf m'"
    and days: "\<And>k. daysOf m k = daysOf m' k"
    and inj: "\<And>e e'. keyOf e = keyOf e' \<Longrightarrow> totalDaysWorked e = totalDaysWorked e' \<Longrightarrow> e = e'"
  shows "map_of m = map_of m'"
proof
  fix k
  have entry: "keyOf e = k \<and> 1 \<le> totalDaysWorked e" if "map_of n k = Some e" "entriesOk keyOf n"
    for n e
    using map_of_SomeD [OF that(1)] that(2) by (auto simp: entriesOk_def)
  show "map_of m k = map_of m' k"
  proof (cases "map_of m k")
    case None
    show ?thesis
    proof (cases "map_of m' k")
      case None
      with \<open>map_of m k = None\<close> show ?thesis by simp
    next
      case (Some e')
      from entry [OF Some m'] days [of k] None Some show ?thesis
        by (simp add: daysOf_def)
    qed
  next
    case (Some e)
    show ?thesis
    proof (cases "map_of m' k")
      case None
      from entry [OF Some m] days [of k] None Some show ?thesis
        by (simp add: daysOf_def)
    next
      case (Some e')
      from entry [OF \<open>map_of m k = Some e\<close> m] entry [OF Some m'] days [of k]
        \<open>map_of m k = Some e\<close> Some
      have "keyOf e = keyOf e'" and "totalDaysWorked e = totalDaysWorked e'"
        by (simp_all add: daysOf_def)
      then have "e = e'" by (rule inj)
      with \<open>map_of m k = Some e\<close> Some show ?thesis by simp
    qed
  qed
qed

lemma keyOfProject_inj:
  "keyOfProject e = keyOfProject e' \<Longrightarrow> totalDaysWorked e = totalDaysWorked e' \<Longrightarrow> e = e'"
  by (simp add: keyOfProject_def)

lemma keyOfTotal_inj:
  "keyOfTotal e = keyOfTotal e' \<Longrightarrow> totalDaysWorked e = totalDaysWorked e' \<Longrightarrow> e = e'"
  by (simp add: keyOfTotal_def)


text \<open>
  C7. Two batches of records that are permutations of each other give the same two maps,
  as maps from keys to entries: every key has an entry in the one exactly when it has one
  in the other, with the same \<open>totalDaysWorked\<close>. Only the order of the entries can differ.
\<close>

theorem aggregation_permutation:
  fixes records records' :: "('n::linorder) EmployeeRecord list"
  assumes "mset records' = mset records"
  shows "map_of (fst (overlapLoops records' ([], []))) = map_of (fst (overlapLoops records ([], []))) \<and>
         map_of (snd (overlapLoops records' ([], []))) = map_of (snd (overlapLoops records ([], []))) \<and>
         daysOf (fst (overlapLoops records' ([], []))) = daysOf (fst (overlapLoops records ([], []))) \<and>
         daysOf (snd (overlapLoops records' ([], []))) = daysOf (snd (overlapLoops records ([], [])))"
proof -
  have project: "map_of (fst (overlapLoops records' ([], []))) =
      map_of (fst (overlapLoops records ([], [])))"
  proof (rule map_of_eq_daysOf)
    show "entriesOk keyOfProject (fst (overlapLoops records' ([], [])))"
      and "entriesOk keyOfProject (fst (overlapLoops records ([], [])))"
      by (rule entriesOk_overlapLoops)+
    show "daysOf (fst (overlapLoops records' ([], []))) k =
        daysOf (fst (overlapLoops records ([], []))) k" for k
      using assms by (rule daysOf_overlapLoops_mset)
    show "e = e'" if "keyOfProject e = keyOfProject e'" "totalDaysWorked e = totalDaysWorked e'"
      for e e' :: "'n PairProjectDays"
      using that by (rule keyOfProject_inj)
  qed
  have total: "map_of (snd (overlapLoops records' ([], []))) =
      map_of (snd (overlapLoops records ([], [])))"
  proof (rule map_of_eq_daysOf)
    show "entriesOk keyOfTotal (snd (overlapLoops records' ([], [])))"
      and "entriesOk keyOfTotal (snd (overlapLoops records ([], [])))"
      by (rule entriesOk_overlapLoops)+
    show "daysOf (snd (overlapLoops records' ([], []))) k =
        daysOf (snd (overlapLoops records ([], []))) k" for k
      using assms by (rule daysOf_overlapLoops_mset)
    show "e = e'" if "keyOfTotal e = keyOfTotal e'" "totalDaysWorked e = totalDaysWorked e'"
      for e e' :: "'n PairTotalDays"
      using that by (rule keyOfTotal_inj)
  qed
  from project total show ?thesis
    by (simp add: daysOf_def fun_eq_iff)
qed

theorem aggregation_permutation_witness:
  "mset [\<lparr>EmpID = 3::int, ProjectID = 1, DateFrom = 1704412800000, DateTo = 1705276800000\<rparr>,
         \<lparr>EmpID = 2, ProjectID = 1, DateFrom = 1704412800000, DateTo = 1705276800000\<rparr>,
         \<lparr>EmpID = 1, ProjectID = 1, DateFrom = 1704067200000, DateTo = 1704844800000\<rparr>] =
   mset [\<lparr>EmpID = 1::int, ProjectID = 1, DateFrom = 1704067200000, DateTo = 1704844800000\<rparr>,
         \<lparr>EmpID = 2, ProjectID = 1, DateFrom = 1704412800000, DateTo = 1705276800000\<rparr>,
         \<lparr>EmpID = 3, ProjectID = 1, DateFrom = 1704412800000, DateTo = 1705276800000\<rparr>] \<and>
   map_of (snd (overlapLoops
        [\<lparr>EmpID = 3::int, ProjectID = 1, DateFrom = 1704412800000, DateTo = 1705276800000\<rparr>,
         \<lparr>EmpID = 2, ProjectID = 1, DateFrom = 1704412800000, DateTo = 1705276800000\<rparr>,
         \<lparr>EmpID = 1, ProjectID = 1, DateFrom = 1704067200000, DateTo = 1704844800000\<rparr>]
        ([], []))) =
   map_of [((1, 2), \<lparr>emp1 = 1, emp2 = 2, totalDaysWorked = 6\<rparr>),
           ((1, 3), \<lparr>emp1 = 1, emp2 = 3, totalDaysWorked = 6\<rparr>),
           ((2, 3), \<lparr>emp1 = 2, emp2 = 3, totalDaysWorked = 11\<rparr>)]"
proof -
  let ?r1 = "\<lparr>EmpID = 1::int, ProjectID = 1, DateFrom = 1704067200000, DateTo = 1704844800000\<rparr>"
  let ?r2 = "\<lparr>EmpID = 2::int, ProjectID = 1, DateFrom = 1704412800000, DateTo = 1705276800000\<rparr>"
  let ?r3 = "\<lparr>EmpID = 3::int, ProjectID = 1, DateFrom = 1704412800000, DateTo = 1705276800000\<rparr>"
  have perm: "mset [?r3, ?r2, ?r1] = mset [?r1, ?r2, ?r3]"
    by simp
  have "snd (overlapLoops [?r1, ?r2, ?r3] ([], [])) =
      [((1, 2), \<lparr>emp1 = 1, emp2 = 2, totalDaysWorked = 6\<rparr>),
       ((1, 3), \<lparr>emp1 = 1, emp2 = 3, totalDaysWorked = 6\<rparr>),
       ((2, 3), \<lparr>emp1 = 2, emp2 = 3, totalDaysWorked = 11\<rparr>)]"
    by (simp add: overlapLoops_allPairs pairStep_def differenceInDays_def msPerDay_def)
  with aggregation_permutation [OF perm] perm show ?thesis
    by simp
qed

text \<open>
  C8. In both maps every entry has \<open>emp1 < emp2\<close> and sits under the key made of its own
  fields. The loop body gives the same maps for a pair of records in either order, and
  exchanging two records of a batch changes no entry of the two maps.
\<close>

theorem canonical_pairs:
  fixes records xs ys zs :: "('n::linorder) EmployeeRecord list" and p1 p2 :: "'n EmployeeRecord"
  shows
  "(\<forall>(k, e) \<in> set (fst (overlapLoops records ([], []))).
      emp1 e < emp2 e \<and> k = (emp1 e, emp2 e, projectId e)) \<and>
   (\<forall>(k, e) \<in> set (snd (overlapLoops records ([], []))).
      emp1 e < emp2 e \<and> k = (emp1 e, emp2 e)) \<and>
   pairStep p1 p2 maps = pairStep p2 p1 maps \<and>
   map_of (fst (overlapLoops (xs @ p1 # ys @ p2 # zs) ([], []))) =
     map_of (fst (overlapLoops (xs @ p2 # ys @ p1 # zs) ([], []))) \<and>
   map_of (snd (overlapLoops (xs @ p1 # ys @ p2 # zs) ([], []))) =
     map_of (snd (overlapLoops (xs @ p2 # ys @ p1 # zs) ([], [])))"
proof (intro conjI)
  from entriesOk_overlapLoops(1) [of records]
  show "\<forall>(k, e) \<in> set (fst (overlapLoops records ([], []))).
      emp1 e < emp2 e \<and> k = (emp1 e, emp2 e, projectId e)"
    by (auto simp: entriesOk_def keyOfProject_def)
  from entriesOk_overlapLoops(2) [of records]
  show "\<forall>(k, e) \<in> set (snd (overlapLoops records ([], []))).
      emp1 e < emp2 e \<and> k = (emp1 e, emp2 e)"
    by (auto simp: entriesOk_def keyOfTotal_def)
  show "pairStep p1 p2 maps = pairStep p2 p1 maps"
  proof (cases "0 < overlapDays p1 p2")
    case True
    then have "ProjectID p1 = ProjectID p2"
      by (simp add: overlapDays_pos)
    with True show ?thesis
      by (cases maps)
        (simp add: pairStep_bump overlapDays_commute [of p2 p1] projectKey_commute [of p2 p1]
          totalKey_commute [of p2 p1] min.commute max.commute)
  next
    case False
    then have "\<not> 0 < overlapDays p2 p1"
      by (simp add: overlapDays_commute)
    with False show ?thesis
      by (simp add: pairStep_no_overlap)
  qed
  have swap: "mset (xs @ p1 # ys @ p2 # zs) = mset (xs @ p2 # ys @ p1 # zs)"
    by simp
  show "map_of (fst (overlapLoops (xs @ p1 # ys @ p2 # zs) ([], []))) =
     map_of (fst (overlapLoops (xs @ p2 # ys @ p1 # zs) ([], [])))"
  proof (rule map_of_eq_daysOf)
    show "entriesOk keyOfProject (fst (overlapLoops (xs @ p1 # ys @ p2 # zs) ([], [])))"
      and "entriesOk keyOfProject (fst (overlapLoops (xs @ p2 # ys @ p1 # zs) ([], [])))"
      by (rule entriesOk_overlapLoops)+
    show "daysOf (fst (overlapLoops (xs @ p1 # ys @ p2 # zs) ([], []))) k =
        daysOf (fst (overlapLoops (xs @ p2 # ys @ p1 # zs) ([], []))) k" for k
      using swap by (rule daysOf_overlapLoops_mset)
    show "e = e'" if "keyOfProject e = keyOfProject e'" "totalDaysWorked e = totalDaysWorked e'"
      for e e' :: "'n PairProjectDays"
      using that by (rule keyOfProject_inj)
  qed
  show "map_of (snd (overlapLoops (xs @ p1 # ys @ p2 # zs) ([], []))) =
     map_of (snd (overlapLoops (xs @ p2 # ys @ p1 # zs) ([], [])))"
  proof (rule map_of_eq_daysOf)
    show "entriesOk keyOfTotal (snd (overlapLoops (xs @ p1 # ys @ p2 # zs) ([], [])))"
      and "entriesOk keyOfTotal (snd (overlapLoops (xs @ p2 # ys @ p1 # zs) ([], [])))"
      by (rule entriesOk_overlapLoops)+
    show "daysOf (snd (overlapLoops (xs @ p1 # ys @ p2 # zs) ([], []))) k =
        daysOf (snd (overlapLoops (xs @ p2 # ys @ p1 # zs) ([], []))) k" for k
      using swap by (rule daysOf_overlapLoops_mset)
    show "e = e'" if "keyOfTotal e = keyOfTotal e'" "totalDaysWorked e = totalDaysWorked e'"
      for e e' :: "'n PairTotalDays"
      using that by (rule keyOfTotal_inj)
  qed
qed

theorem canonical_pairs_witness:
  "fst (overlapLoops
     [\<lparr>EmpID = 2::int, ProjectID = 1, DateFrom = 1704412800000, DateTo = 1705276800000\<rparr>,
      \<lparr>EmpID = 1, ProjectID = 1, DateFrom = 1704067200000, DateTo = 1704844800000\<rparr>]
     ([], [])) =
     [((1, 2, 1), \<lparr>emp1 = 1, emp2 = 2, totalDaysWorked = 6, projectId = 1\<rparr>)] \<and>
   emp1 \<lparr>emp1 = 1::int, emp2 = 2, totalDaysWorked = 6, projectId = 1::int\<rparr> <
   emp2 \<lparr>emp1 = 1::int, emp2 = 2, totalDaysWorked = 6, projectId = 1::int\<rparr> \<and>
   pairStep
     \<lparr>EmpID = 2::int, ProjectID = 1, DateFrom = 1704412800000, DateTo = 1705276800000\<rparr>
     \<lparr>EmpID = 1, ProjectID = 1, DateFrom = 1704067200000, DateTo = 1704844800000\<rparr> ([], []) =
   pairStep
     \<lparr>EmpID = 1, ProjectID = 1, DateFrom = 1704067200000, DateTo = 1704844800000\<rparr>
     \<lparr>EmpID = 2::int, ProjectID = 1, DateFrom = 1704412800000, DateTo = 1705276800000\<rparr> ([], [])"
proof -
  let ?r1 = "\<lparr>EmpID = 1::int, ProjectID = 1, DateFrom = 1704067200000, DateTo = 1704844800000\<rparr>"
  let ?r2 = "\<lparr>EmpID = 2::int, ProjectID = 1, DateFrom = 1704412800000, DateTo = 1705276800000\<rparr>"
  let ?e = "\<lparr>emp1 = 1::int, emp2 = 2, totalDaysWorked = 6, projectId = 1::int\<rparr>"
  have run: "fst (overlapLoops [?r2, ?r1] ([], [])) = [((1, 2, 1), ?e)]"
    by (simp add: overlapLoops_allPairs pairStep_def differenceInDays_def msPerDay_def)
  then have "((1, 2, 1), ?e) \<in> set (fst (overlapLoops [?r2, ?r1] ([], [])))"
    by simp
  with canonical_pairs [of "[?r2, ?r1]" ?r2 ?r1 "([], [])" "[]" "[]" "[]"]
  have "emp1 ?e < emp2 ?e" and "pairStep ?r2 ?r1 ([], []) = pairStep ?r1 ?r2 ([], [])"
    by blast+
  with run show ?thesis by blast
qed


section \<open>The slash patterns\<close>

subsection \<open>Tokens of the shape of the slash patterns\<close>

lemma regex_test_Cons:
  "regex_test (a # as) s \<longleftrightarrow> (\<exists>c cs. s = c # cs \<and> atom_matches a c \<and> regex_test as cs)"
  by (cases s) simp_all

lemma regex_test_Nil: "regex_test [] s \<longleftrightarrow> s = []"
  by (cases s) simp_all

lemma isDigit_not_slash: "isDigit c \<Longrightarrow> c \<noteq> CHR ''/''"
  by (auto simp: isDigit_def)

lemma not_isDigit_slash: "\<not> isDigit CHR ''/''"
  by (simp add: isDigit_def)

lemma digitValue_range: "isDigit c \<Longrightarrow> 0 \<le> digitValue c \<and> digitValue c \<le> 9"
proof -
  assume "isDigit c"
  then have "48 \<le> (of_char c :: nat)" and "(of_char c :: nat) \<le> 57"
    by (simp_all add: isDigit_def)
  moreover have "digitValue c = int (of_char c) - 48"
    by (simp add: digitValue_def of_nat_of_char)
  ultimately show ?thesis by linarith
qed

lemma regex_slash_shape:
  assumes "regex_test regex_mdy_slash t"
  shows "\<exists>m1 m2 d1 d2 y1 y2 y3 y4.
    t = [m1, m2, CHR ''/'', d1, d2, CHR ''/'', y1, y2, y3, y4] \<and>
    isDigit m1 \<and> isDigit m2 \<and> isDigit d1 \<and> isDigit d2 \<and>
    isDigit y1 \<and> isDigit y2 \<and> isDigit y3 \<and> isDigit y4"
  using assms unfolding regex_mdy_slash_def
  by (auto simp: regex_test_Cons regex_test_Nil)

lemma regex_slash_same: "regex_test regex_dmy_slash t = regex_test regex_mdy_slash t"
  by (simp add: regex_dmy_slash_def regex_mdy_slash_def)

lemma regex_slash_not_dash:
  "regex_test regex_mdy_slash t \<Longrightarrow> \<not> regex_test regex_ymd_dash t"
  by (drule regex_slash_shape) (auto simp: regex_ymd_dash_def not_isDigit_slash)


lemma NumberOfDigits_2:
  "isDigit a \<Longrightarrow> isDigit b \<Longrightarrow> 0 \<le> NumberOfDigits [a, b] \<and> NumberOfDigits [a, b] \<le> 99"
  using digitValue_range [of a] digitValue_range [of b]
  by (simp add: NumberOfDigits_def)

lemma NumberOfDigits_4:
  "isDigit a \<Longrightarrow> isDigit b \<Longrightarrow> isDigit c \<Longrightarrow> isDigit d \<Longrightarrow>
   0 \<le> NumberOfDigits [a, b, c, d] \<and> NumberOfDigits [a, b, c, d] \<le> 9999"
  using digitValue_range [of a] digitValue_range [of b] digitValue_range [of c]
    digitValue_range [of d]
  by (simp add: NumberOfDigits_def)

subsection \<open>The constructor gives a valid date on the numbers of a matched token\<close>

lemma DayFromYear_bounds:
  "- 1 \<le> y \<Longrightarrow> y \<le> 10007 \<Longrightarrow> - 800000 \<le> DayFromYear y \<and> DayFromYear y \<le> 3000000"
proof -
  assume y: "- 1 \<le> y" "y \<le> 10007"
  have "(- 1970) div 4 \<le> (y - 1969) div 4" and "(y - 1969) div 4 \<le> 8038 div 4"
    using y by (intro zdiv_mono1; simp)+
  moreover have "(- 1902) div 100 \<le> (y - 1901) div 100" and "(y - 1901) div 100 \<le> 8106 div 100"
    using y by (intro zdiv_mono1; simp)+
  moreover have "(- 1602) div 400 \<le> (y - 1601) div 400" and "(y - 1601) div 400 \<le> 8406 div 400"
    using y by (intro zdiv_mono1; simp)+
  ultimately show ?thesis
    unfolding DayFromYear_def using y by simp
qed

lemma DaysBeforeMonth_bounds: "0 \<le> DaysBeforeMonth mn leap \<and> DaysBeforeMonth mn leap \<le> 335"
  by (simp add: DaysBeforeMonth_def)

lemma MakeDay_bounds:
  assumes "0 \<le> yr" "yr \<le> 9999" "- 1 \<le> month" "month \<le> 98" "0 \<le> date" "date \<le> 99"
  shows "- 900000 \<le> MakeDay yr month date \<and> MakeDay yr month date \<le> 3100000"
proof -
  have "- 1 \<le> month div 12" and "month div 12 \<le> 8"
    using assms(3,4) by linarith+
  then have "- 1 \<le> yr + month div 12" and "yr + month div 12 \<le> 10007"
    using assms(1,2) by linarith+
  from DayFromYear_bounds [OF this]
    DaysBeforeMonth_bounds [of "month mod 12" "InLeapYear (yr + month div 12)"] assms(5,6)
  show ?thesis
    by (simp add: MakeDay_def Let_def)
qed

lemma newDate_valid:
  assumes "saneHost h"
    and "0 \<le> year" "year \<le> 9999" "- 1 \<le> month" "month \<le> 98" "0 \<le> date" "date \<le> 99"
  shows "\<exists>t. newDate h year month date = Some t"
proof -
  let ?yr = "if 0 \<le> year \<and> year \<le> 99 then 1900 + year else year"
  have "0 \<le> ?yr" and "?yr \<le> 9999"
    using assms(2,3) by simp_all
  from MakeDay_bounds [OF this assms(4-7)]
  have "\<bar>MakeDay ?yr month date * 86400000\<bar> \<le> 3100000 * 86400000"
    by linarith
  moreover from assms(1)
  have "\<bar>UTC h (MakeDay ?yr month date * 86400000) - MakeDay ?yr month date * 86400000\<bar> \<le> 86400000"
    by (simp add: saneHost_def msPerDay_def)
  ultimately have "\<bar>UTC h (MakeDay ?yr month date * 86400000)\<bar> \<le> 8640000000000000"
    by linarith
  then show ?thesis
    by (simp add: newDate_def Let_def TimeClip_def msPerDay_def)
qed

lemma split_last: "sep \<notin> set p \<Longrightarrow> split sep p = [p]"
  by (induction p) auto

lemma split_piece: "sep \<notin> set p \<Longrightarrow> split sep (p @ sep # cs) = p # split sep cs"
  by (induction p) auto

lemma digits_no_slash:
  "isDigit a \<Longrightarrow> isDigit b \<Longrightarrow> CHR ''/'' \<notin> set [a, b]"
  "isDigit a \<Longrightarrow> isDigit b \<Longrightarrow> isDigit c \<Longrightarrow> isDigit d \<Longrightarrow> CHR ''/'' \<notin> set [a, b, c, d]"
  by (auto dest: isDigit_not_slash)

lemma parser_mdy_slash_valid:
  assumes "saneHost h" and "regex_test regex_mdy_slash t"
  shows "parser_mdy_slash h t =
           newDate h (NumberOfDigits (drop 6 t)) (NumberOfDigits (take 2 t) - 1)
             (NumberOfDigits (take 2 (drop 3 t)))"
    and "\<exists>d. parser_mdy_slash h t = Some d"
proof -
  from regex_slash_shape [OF assms(2)] obtain m1 m2 d1 d2 y1 y2 y3 y4 where
    t: "t = [m1, m2, CHR ''/'', d1, d2, CHR ''/'', y1, y2, y3, y4]"
    and digits: "isDigit m1" "isDigit m2" "isDigit d1" "isDigit d2"
      "isDigit y1" "isDigit y2" "isDigit y3" "isDigit y4"
    by blast
  have "split CHR ''/'' [y1, y2, y3, y4] = [[y1, y2, y3, y4]]"
    by (rule split_last [OF digits_no_slash(2) [OF digits(5-8)]])
  then have "split CHR ''/'' ([d1, d2] @ CHR ''/'' # [y1, y2, y3, y4]) =
      [[d1, d2], [y1, y2, y3, y4]]"
    by (simp only: split_piece [OF digits_no_slash(1) [OF digits(3,4)]])
  then have "split CHR ''/'' ([m1, m2] @ CHR ''/'' # [d1, d2] @ CHR ''/'' # [y1, y2, y3, y4]) =
      [[m1, m2], [d1, d2], [y1, y2, y3, y4]]"
    by (simp only: split_piece [OF digits_no_slash(1) [OF digits(1,2)]])
  then have "split CHR ''/'' t = [[m1, m2], [d1, d2], [y1, y2, y3, y4]]"
    by (simp only: t append_Cons append_Nil)
  then have p: "parser_mdy_slash h t =
      newDate h (NumberOfDigits [y1, y2, y3, y4]) (NumberOfDigits [m1, m2] - 1)
        (NumberOfDigits [d1, d2])"
    by (simp add: parser_mdy_slash_def)
  then show "parser_mdy_slash h t =
           newDate h (NumberOfDigits (drop 6 t)) (NumberOfDigits (take 2 t) - 1)
             (NumberOfDigits (take 2 (drop 3 t)))"
    by (simp add: t)
  have y: "0 \<le> NumberOfDigits [y1, y2, y3, y4]" "NumberOfDigits [y1, y2, y3, y4] \<le> 9999"
    using NumberOfDigits_4 [OF digits(5-8)] by blast+
  have m: "- 1 \<le> NumberOfDigits [m1, m2] - 1" "NumberOfDigits [m1, m2] - 1 \<le> 98"
    using NumberOfDigits_2 [OF digits(1,2)] by linarith+
  have d: "0 \<le> NumberOfDigits [d1, d2]" "NumberOfDigits [d1, d2] \<le> 99"
    using NumberOfDigits_2 [OF digits(3,4)] by blast+
  have "\<exists>d. newDate h (NumberOfDigits [y1, y2, y3, y4]) (NumberOfDigits [m1, m2] - 1)
        (NumberOfDigits [d1, d2]) = Some d"
    by (rule newDate_valid [OF assms(1) y m d])
  with p show "\<exists>d. parser_mdy_slash h t = Some d"
    by simp
qed

lemma trim_length: "length (trim s) \<le> length s"
proof -
  have "length (trim s) \<le> length (dropWhile isWhiteSpace s)"
    unfolding trim_def length_rev
    using length_dropWhile_le [of isWhiteSpace "rev (dropWhile isWhiteSpace s)"] by simp
  also have "\<dots> \<le> length s"
    by (rule length_dropWhile_le)
  finally show ?thesis .
qed

lemma slash_token_not_today:
  assumes "regex_test regex_mdy_slash (trim dateStr)"
  shows "\<not> (dateStr = [] \<or> toLowerCase dateStr = ''null'')"
proof -
  from regex_slash_shape [OF assms] have "length (trim dateStr) = 10"
    by auto
  with trim_length [of dateStr] have "10 \<le> length dateStr"
    by simp
  moreover have "length (toLowerCase dateStr) = length dateStr"
    by (simp add: toLowerCase_def)
  ultimately show ?thesis
    by auto
qed

lemma tryPatterns_slash:
  assumes "saneHost h" and "regex_test regex_mdy_slash t"
  shows "tryPatterns datePatterns h t = parser_mdy_slash h t"
  using regex_slash_not_dash [OF assms(2)] parser_mdy_slash_valid(2) [OF assms] assms(2)
  by (auto simp: datePatterns_def)

lemma tryPatterns_without_fourth:
  assumes "saneHost h"
  shows "tryPatterns
           [(regex_ymd_dash, parser_ymd_dash), (regex_mdy_slash, parser_mdy_slash),
            (regex_dmy_dash, parser_dmy_dash)] h t =
         tryPatterns datePatterns h t"
proof (cases "regex_test regex_mdy_slash t")
  case True
  with parser_mdy_slash_valid(2) [OF assms True] show ?thesis
    by (auto simp: datePatterns_def split: option.splits)
next
  case False
  then show ?thesis
    by (simp add: datePatterns_def regex_slash_same split: option.splits)
qed

text \<open>
  C5. On a runtime whose local time is within a day of UTC: a token that, trimmed, has the
  shape of two digits, a slash, two digits, a slash and four digits is parsed by the second
  pattern, as month, day and year, and the result is a date. The fourth pattern never
  decides: without it \<open>parseDate\<close> returns the same on every token.
\<close>

theorem slash_dates_month_first:
  assumes "saneHost h"
  shows "(regex_test regex_mdy_slash (trim dateStr) \<longrightarrow>
            parseDate h dateStr =
              newDate h (NumberOfDigits (drop 6 (trim dateStr)))
                (NumberOfDigits (take 2 (trim dateStr)) - 1)
                (NumberOfDigits (take 2 (drop 3 (trim dateStr)))) \<and>
            parseDate h dateStr \<noteq> None) \<and>
         (\<forall>s. regex_test regex_dmy_slash s = regex_test regex_mdy_slash s) \<and>
         (\<forall>s. parseDateWith
                [(regex_ymd_dash, parser_ymd_dash), (regex_mdy_slash, parser_mdy_slash),
                 (regex_dmy_dash, parser_dmy_dash)] h s =
              parseDate h s)"
proof (intro conjI impI allI)
  assume shape: "regex_test regex_mdy_slash (trim dateStr)"
  from slash_token_not_today [OF shape]
  have "parseDate h dateStr = tryPatterns datePatterns h (trim dateStr)"
    by (simp add: parseDate_def parseDateWith_def)
  also have "\<dots> = parser_mdy_slash h (trim dateStr)"
    using assms shape by (rule tryPatterns_slash)
  finally have p: "parseDate h dateStr = parser_mdy_slash h (trim dateStr)" .
  with parser_mdy_slash_valid(1) [OF assms shape]
  show "parseDate h dateStr =
      newDate h (NumberOfDigits (drop 6 (trim dateStr)))
        (NumberOfDigits (take 2 (trim dateStr)) - 1)
        (NumberOfDigits (take 2 (drop 3 (trim dateStr))))"
    by simp
  from p parser_mdy_slash_valid(2) [OF assms shape]
  show "parseDate h dateStr \<noteq> None"
    by auto
next
  fix s
  show "regex_test regex_dmy_slash s = regex_test regex_mdy_slash s"
    by (rule regex_slash_same)
next
  fix s
  show "parseDateWith
       [(regex_ymd_dash, parser_ymd_dash), (regex_mdy_slash, parser_mdy_slash),
        (regex_dmy_dash, parser_dmy_dash)] h s =
      parseDate h s"
    using tryPatterns_without_fourth [OF assms, of "trim s"]
    by (simp add: parseDate_def parseDateWith_def)
qed

theorem slash_dates_month_first_witness:
  "saneHost utcHost \<and> regex_test regex_mdy_slash (trim '' 02/03/2024 '') \<and>
   parseDate utcHost '' 02/03/2024 '' = Some 1706918400000 \<and>
   parseDate utcHost ''2024-02-03'' = Some 1706918400000 \<and>
   parser_dmy_slash utcHost ''02/03/2024'' = Some 1709337600000"
proof -
  have sane: "saneHost utcHost"
    by (simp add: saneHost_def utcHost_def msPerDay_def)
  have shape: "regex_test regex_mdy_slash (trim '' 02/03/2024 '')"
    by code_simp
  have date: "newDate utcHost (NumberOfDigits (drop 6 (trim '' 02/03/2024 '')))
      (NumberOfDigits (take 2 (trim '' 02/03/2024 '')) - 1)
      (NumberOfDigits (take 2 (drop 3 (trim '' 02/03/2024 '')))) = Some 1706918400000"
    by code_simp
  have iso: "parseDate utcHost ''2024-02-03'' = Some 1706918400000"
    by code_simp
  have dmy: "parser_dmy_slash utcHost ''02/03/2024'' = Some 1709337600000"
    by code_simp
  from slash_dates_month_first [OF sane, of "'' 02/03/2024 ''"] shape date
  have "parseDate utcHost '' 02/03/2024 '' = Some 1706918400000"
    by simp
  with sane shape iso dmy show ?thesis
    by simp
qed

end
